theory Spec2Isabelle
  imports Complex_Main
begin

section \<open>JavaScript values used by \<^verbatim>\<open>blockchain.js\<close>\<close>

text \<open>
  Every public method of the \<^verbatim>\<open>Blockchain\<close> class returns a promise. A promise
  either resolves with a value, rejects with an error, or never settles. The last case
  is what \<^verbatim>\<open>new Promise(async (resolve, reject) => {...})\<close> gives when the
  async executor throws (or awaits a rejected promise) before it has called
  \<^verbatim>\<open>resolve\<close> or \<^verbatim>\<open>reject\<close>: the exception rejects the promise of the
  executor, which nobody holds, and the promise handed to the caller stays pending.
\<close>

datatype ('e, 'a) promise = Resolved 'a | Rejected 'e | Pending

text \<open>
  Strings are sequences of code units; the model covers the code units below 256.
  A JavaScript number that is an integer or \<^verbatim>\<open>NaN\<close> is an \<open>int option\<close>,
  \<open>None\<close> being \<^verbatim>\<open>NaN\<close>. The integers of the model are exact; those of
  JavaScript are exact up to \<open>2^53\<close>, which every reading of the clock in seconds
  is below.
\<close>

type_synonym jsnum = "int option"

subsection \<open>\<^verbatim>\<open>Number.prototype.toString\<close> and \<^verbatim>\<open>slice(0,-3)\<close>\<close>

definition digit_char :: "int \<Rightarrow> char" where
  "digit_char d = ''0123456789'' ! nat (d mod 10)"

text \<open>The decimal digits of an integer that is not negative, as \<^verbatim>\<open>toString\<close>
  prints every integer below \<open>10^21\<close>; a reading of the clock in milliseconds is
  below \<open>10^16\<close>.\<close>

function string_of_nat :: "int \<Rightarrow> string" where
  "string_of_nat n =
     (if n < 10 then [digit_char n]
      else string_of_nat (n div 10) @ [digit_char (n mod 10)])"
  by pat_completeness auto
termination
  by (relation "measure nat") auto

declare string_of_nat.simps [simp del]

definition toString :: "int \<Rightarrow> string" where
  "toString i = (if i < 0 then CHR ''-'' # string_of_nat (- i) else string_of_nat i)"

text \<open>\<^verbatim>\<open>s.slice(0,-3)\<close>: the string without its last three code units, empty when
  it has at most three.\<close>

definition slice_0_m3 :: "string \<Rightarrow> string" where
  "slice_0_m3 s = take (length s - 3) s"

subsection \<open>\<^verbatim>\<open>String.prototype.split(':')\<close> and indexing\<close>

text \<open>The result of \<^verbatim>\<open>split\<close> is never empty: a string without the separator
  gives the one-element array holding the string itself.\<close>

fun split_colon :: "string \<Rightarrow> string list" where
  "split_colon [] = [[]]"
| "split_colon (c # cs) =
     (if c = CHR '':'' then [] # split_colon cs
      else (case split_colon cs of
              [] \<Rightarrow> [[c]]
            | w # ws \<Rightarrow> (c # w) # ws))"

text \<open>\<^verbatim>\<open>xs[i]\<close> is \<^verbatim>\<open>undefined\<close> out of range, here \<open>None\<close>.\<close>

definition index :: "'a list \<Rightarrow> nat \<Rightarrow> 'a option" where
  "index xs i = (if i < length xs then Some (xs ! i) else None)"

subsection \<open>\<^verbatim>\<open>parseInt\<close> with no radix\<close>

definition is_white_space :: "char \<Rightarrow> bool" where
  "is_white_space c = (of_char c \<in> {9, 10, 11, 12, 13, 32, 160 :: int})"

definition digit_value :: "char \<Rightarrow> int option" where
  "digit_value c =
     (let n = of_char c :: int in
      if 48 \<le> n \<and> n \<le> 57 then Some (n - 48)
      else if 97 \<le> n \<and> n \<le> 122 then Some (n - 87)
      else if 65 \<le> n \<and> n \<le> 90 then Some (n - 55)
      else None)"

definition is_digit :: "int \<Rightarrow> char \<Rightarrow> bool" where
  "is_digit R c = (case digit_value c of None \<Rightarrow> False | Some d \<Rightarrow> d < R)"

definition digits_value :: "int \<Rightarrow> string \<Rightarrow> int" where
  "digits_value R z = foldl (\<lambda>acc c. acc * R + the (digit_value c)) 0 z"

text \<open>
  \<^verbatim>\<open>parseInt(s)\<close>: leading white space is skipped, then an optional sign, then an
  optional \<^verbatim>\<open>0x\<close> or \<^verbatim>\<open>0X\<close> that selects radix 16; the longest prefix of digits of
  the radix is the number, and \<^verbatim>\<open>NaN\<close> is returned when that prefix is empty.
\<close>

definition parseInt :: "string \<Rightarrow> jsnum" where
  "parseInt s =
     (let s1 = dropWhile is_white_space s;
          neg = (s1 \<noteq> [] \<and> hd s1 = CHR ''-'');
          s2 = (if s1 \<noteq> [] \<and> (hd s1 = CHR ''-'' \<or> hd s1 = CHR ''+'') then tl s1 else s1);
          hex = (take 2 s2 = ''0x'' \<or> take 2 s2 = ''0X'');
          R = (if hex then 16 else 10);
          s3 = (if hex then drop 2 s2 else s2);
          z = takeWhile (is_digit R) s3
      in if z = [] then None
         else Some ((if neg then - 1 else 1) * digits_value R z))"

text \<open>\<^verbatim>\<open>parseInt(x)\<close> of a value that may be \<^verbatim>\<open>undefined\<close>: the argument is
  first converted to a string.\<close>

definition parseInt_value :: "string option \<Rightarrow> jsnum" where
  "parseInt_value x = (case x of None \<Rightarrow> parseInt ''undefined'' | Some s \<Rightarrow> parseInt s)"

text \<open>
  \<^verbatim>\<open>parseInt(new Date().getTime().toString().slice(0,-3))\<close>, the expression that
  \<^verbatim>\<open>_addBlock\<close> and \<^verbatim>\<open>submitStar\<close> read the clock with; \<open>ms\<close> is what
  \<^verbatim>\<open>getTime()\<close> returned, the milliseconds since the epoch.
\<close>

definition curr_timestamp :: "int \<Rightarrow> jsnum" where
  "curr_timestamp ms = parseInt (slice_0_m3 (toString ms))"


section \<open>The block collaborator\<close>

text \<open>
  A star claim is the object \<^verbatim>\<open>{owner, signature, message, star}\<close> that
  \<^verbatim>\<open>submitStar\<close> builds; the star itself is whatever the caller passed. The body
  of a block holds either such a claim or the data of the genesis block,
  \<^verbatim>\<open>{data: 'Genesis Block'}\<close>.
\<close>

record 's star_claim =
  owner :: string
  signature :: string
  message :: string
  star :: 's

datatype 's payload = GenesisData | Claim "'s star_claim"

text \<open>The fields of a block; \<open>None\<close> is \<^verbatim>\<open>null\<close> in the two hash fields and
  \<^verbatim>\<open>NaN\<close> in \<open>time\<close>.\<close>

record 's block =
  hash :: "string option"
  height :: int
  body :: "'s payload"
  time :: jsnum
  previousBlockHash :: "string option"

datatype decode_error = DecodeFailure

text \<open>
  Modelled from the spec: \<^verbatim>\<open>block.js\<close>, the class \<^verbatim>\<open>BlockClass.Block\<close>, is
  not among the sources. \<^verbatim>\<open>new(body)\<close> gives an unattached block, whose height,
  time, hash and previous hash are unset.
\<close>

definition new_Block :: "'s payload \<Rightarrow> 's block" where
  "new_Block data =
     \<lparr>hash = None, height = 0, body = data, time = Some 0, previousBlockHash = None\<rparr>"

text \<open>
  Modelled from the spec: \<^verbatim>\<open>validate()\<close> of the missing \<^verbatim>\<open>block.js\<close> recomputes
  the hash over \<^verbatim>\<open>{height, time, previousBlockHash, body}\<close>, the block with its
  hash field unset, and compares it to the stored hash. The hash provider \<open>H\<close> stands for
  \<^verbatim>\<open>SHA256(JSON.stringify(block)).toString()\<close>.
\<close>

definition validate :: "('s block \<Rightarrow> string) \<Rightarrow> 's block \<Rightarrow> bool" where
  "validate H b = (hash b = Some (H (b\<lparr>hash := None\<rparr>)))"

text \<open>
  Modelled from the spec: \<^verbatim>\<open>getBData()\<close> of the missing \<^verbatim>\<open>block.js\<close> gives the
  decoded body and fails for the body of the genesis block.
\<close>

definition getBData :: "'s block \<Rightarrow> decode_error + 's star_claim" where
  "getBData b = (case body b of GenesisData \<Rightarrow> Inl DecodeFailure | Claim d \<Rightarrow> Inr d)"

section \<open>The class \<^verbatim>\<open>Blockchain\<close>\<close>

text \<open>The two fields of the class: \<^verbatim>\<open>this.chain\<close> and \<^verbatim>\<open>this.height\<close>, the
  second named \<open>chain_height\<close>, since \<open>height\<close> is the field of a block.\<close>

record 's blockchain =
  chain :: "'s block list"
  chain_height :: int

text \<open>
  An entry of the list that \<^verbatim>\<open>validateChain\<close> resolves with is either a block, whose
  own hash check failed, or the text
  \<^verbatim>\<open>'previous hash does not equal hash of previous block'\<close>.
\<close>

datatype 's validation_error = BlockInvalid "'s block" | PreviousHashMismatch

text \<open>
  What a promise of the class rejects with: a \<^verbatim>\<open>TypeError\<close> caught in
  \<^verbatim>\<open>_addBlock\<close>, the error \<^verbatim>\<open>"invalid"\<close> with its \<^verbatim>\<open>error_log\<close>,
  \<^verbatim>\<open>'message not verified'\<close> and \<^verbatim>\<open>'message timeout > 5min'\<close>.
\<close>

datatype 's error =
  TypeError | Invalid "'s validation_error list" | MessageNotVerified | MessageTimeout

subsection \<open>\<^verbatim>\<open>getChainHeight\<close>, \<^verbatim>\<open>getBlockByHash\<close>, \<^verbatim>\<open>getBlockByHeight\<close>\<close>

definition getChainHeight :: "'s blockchain \<Rightarrow> ('s error, int) promise" where
  "getChainHeight self = Resolved (chain_height self)"

text \<open>\<^verbatim>\<open>self.chain.filter(p => p.hash === hash)[0]\<close>, resolved as it is when there
  is one and as \<^verbatim>\<open>null\<close> otherwise. The promise always resolves, so the model is
  the resolved value.\<close>

definition getBlockByHash :: "'s blockchain \<Rightarrow> string option \<Rightarrow> 's block option" where
  "getBlockByHash self h =
     (case filter (\<lambda>p. hash p = h) (chain self) of [] \<Rightarrow> None | block # _ \<Rightarrow> Some block)"

definition getBlockByHeight :: "'s blockchain \<Rightarrow> int \<Rightarrow> 's block option" where
  "getBlockByHeight self n =
     (case filter (\<lambda>p. height p = n) (chain self) of [] \<Rightarrow> None | block # _ \<Rightarrow> Some block)"

subsection \<open>\<^verbatim>\<open>validateChain\<close>\<close>

text \<open>
  The \<^verbatim>\<open>while\<close> loop of \<^verbatim>\<open>validateChain\<close>, with the check of the last block
  that follows it. The loop goes from a block to the block found under its previous hash,
  so on a chain that links a block to itself it never ends: the value is then \<open>None\<close>.
  When \<^verbatim>\<open>getBlockByHash\<close> resolves with \<^verbatim>\<open>null\<close>, reading
  \<^verbatim>\<open>latest_block.hash\<close> throws inside the async executor, and the promise never
  settles: the value is \<open>Some Pending\<close>.
\<close>

partial_function (option) validate_loop ::
  "('s block \<Rightarrow> string) \<Rightarrow> 's blockchain \<Rightarrow> 's block \<Rightarrow> 's validation_error list
     \<Rightarrow> ('s error, 's validation_error list) promise option" where
  "validate_loop H self latest_block error_array =
     (if height latest_block > 0 then
        (let error_array1 =
               (if \<not> validate H latest_block then error_array @ [BlockInvalid latest_block]
                else error_array)
         in case getBlockByHash self (previousBlockHash latest_block) of
              None \<Rightarrow> Some Pending
            | Some found \<Rightarrow>
                validate_loop H self found
                  (if previousBlockHash latest_block \<noteq> hash found
                   then error_array1 @ [PreviousHashMismatch] else error_array1))
      else Some (Resolved
             (if \<not> validate H latest_block then error_array @ [BlockInvalid latest_block]
              else error_array)))"

declare validate_loop.simps [code]

definition validateChain ::
  "('s block \<Rightarrow> string) \<Rightarrow> 's blockchain
     \<Rightarrow> ('s error, 's validation_error list) promise option" where
  "validateChain H self =
     (let block_length = length (chain self) in
      if block_length \<ge> 1
      then validate_loop H self (chain self ! (block_length - 1)) []
      else Some (Resolved []))"

subsection \<open>\<^verbatim>\<open>_addBlock\<close>\<close>

text \<open>
  The block as \<^verbatim>\<open>_addBlock\<close> fills it in before it pushes it: the previous hash
  (only when the chain has a block), the height, the time, and last the hash, computed
  from the block as it is at that moment.
\<close>

definition stamp :: "('s block \<Rightarrow> string) \<Rightarrow> int \<Rightarrow> 's blockchain \<Rightarrow> 's block \<Rightarrow> 's block" where
  "stamp H ms self block =
     (let block1 = (if chain_height self \<ge> 0
                    then block\<lparr>previousBlockHash := hash (chain self ! nat (chain_height self))\<rparr>
                    else block);
          new_height = chain_height self + 1;
          block2 = block1\<lparr>height := new_height\<rparr>;
          block3 = block2\<lparr>time := curr_timestamp ms\<rparr>
      in block3\<lparr>hash := Some (H block3)\<rparr>)"

text \<open>
  \<^verbatim>\<open>_addBlock\<close>, here \<open>addBlock\<close>, returns the state it leaves and how its
  promise settles. When
  \<^verbatim>\<open>self.chain[self.height]\<close> is \<^verbatim>\<open>undefined\<close>, reading its hash throws, the
  \<^verbatim>\<open>catch\<close> rejects with the exception, and nothing has been changed. Otherwise the
  block is pushed and the height advanced before \<^verbatim>\<open>validateChain\<close> is awaited; a
  validation that never ends or never settles leaves the promise pending.
\<close>

definition addBlock ::
  "('s block \<Rightarrow> string) \<Rightarrow> int \<Rightarrow> 's blockchain \<Rightarrow> 's block
     \<Rightarrow> 's blockchain \<times> ('s error, 's block) promise" where
  "addBlock H ms self block =
     (if chain_height self \<ge> 0 \<and> \<not> nat (chain_height self) < length (chain self)
      then (self, Rejected TypeError)
      else
        (let block' = stamp H ms self block;
             self' = self\<lparr>chain := chain self @ [block'], chain_height := chain_height self + 1\<rparr>
         in case validateChain H self' of
              None \<Rightarrow> (self', Pending)
            | Some Pending \<Rightarrow> (self', Pending)
            | Some (Rejected e) \<Rightarrow> (self', Rejected e)
            | Some (Resolved error_log) \<Rightarrow>
                if length error_log = 0 then (self', Resolved block')
                else (self', Rejected (Invalid error_log))))"

subsection \<open>The constructor and \<^verbatim>\<open>initializeChain\<close>\<close>

definition initializeChain ::
  "('s block \<Rightarrow> string) \<Rightarrow> int \<Rightarrow> 's blockchain \<Rightarrow> 's blockchain" where
  "initializeChain H ms self =
     (if chain_height self = - 1 then fst (addBlock H ms self (new_Block GenesisData))
      else self)"

definition Blockchain :: "('s block \<Rightarrow> string) \<Rightarrow> int \<Rightarrow> 's blockchain" where
  "Blockchain H ms = initializeChain H ms \<lparr>chain = [], chain_height = - 1\<rparr>"

subsection \<open>\<^verbatim>\<open>requestMessageOwnershipVerification\<close> and \<^verbatim>\<open>submitStar\<close>\<close>

definition requestMessageOwnershipVerification :: "int \<Rightarrow> string \<Rightarrow> string" where
  "requestMessageOwnershipVerification ms address =
     address @ '':'' @ slice_0_m3 (toString ms) @ '':starRegistry''"

text \<open>\<^verbatim>\<open>(currentTime-message_time)/(60.)\<close>: \<^verbatim>\<open>NaN\<close> when either operand is, and
  \<^verbatim>\<open>x <= 5.\<close>, which is false of \<^verbatim>\<open>NaN\<close>.\<close>

definition time_diff_min :: "jsnum \<Rightarrow> jsnum \<Rightarrow> real option" where
  "time_diff_min currentTime message_time =
     (case currentTime of
        None \<Rightarrow> None
      | Some c \<Rightarrow> (case message_time of None \<Rightarrow> None | Some m \<Rightarrow> Some (real_of_int (c - m) / 60)))"

definition js_le :: "real option \<Rightarrow> real \<Rightarrow> bool" where
  "js_le x y = (case x of None \<Rightarrow> False | Some v \<Rightarrow> v \<le> y)"

definition message_time :: "string \<Rightarrow> jsnum" where
  "message_time msg = parseInt_value (index (split_colon msg) 1)"

text \<open>
  \<^verbatim>\<open>submitStar\<close> reads the clock once; \<^verbatim>\<open>_addBlock\<close>, which it calls, reads it
  again, so there are two readings, \<open>ms\<close> and \<open>ms'\<close>. The signature verifier \<open>V\<close>
  stands for \<^verbatim>\<open>bitcoinMessage.verify\<close>. The executor has no \<^verbatim>\<open>try\<close>: when
  \<^verbatim>\<open>_addBlock\<close> rejects, the \<^verbatim>\<open>await\<close> throws and the promise of
  \<^verbatim>\<open>submitStar\<close> never settles.
\<close>

definition submitStar ::
  "('s block \<Rightarrow> string) \<Rightarrow> (string \<Rightarrow> string \<Rightarrow> string \<Rightarrow> bool) \<Rightarrow> int \<Rightarrow> int
     \<Rightarrow> 's blockchain \<Rightarrow> string \<Rightarrow> string \<Rightarrow> string \<Rightarrow> 's
     \<Rightarrow> 's blockchain \<times> ('s error, 's block) promise" where
  "submitStar H V ms ms' self address msg sig st =
     (if js_le (time_diff_min (curr_timestamp ms) (message_time msg)) 5 then
        (if V msg address sig then
           (let data = \<lparr>owner = address, signature = sig, message = msg, star = st\<rparr>;
                new_block = new_Block (Claim data)
            in case addBlock H ms' self new_block of
                 (self', Resolved block) \<Rightarrow> (self', Resolved block)
               | (self', Rejected e) \<Rightarrow> (self', Pending)
               | (self', Pending) \<Rightarrow> (self', Pending))
         else (self, Rejected MessageNotVerified))
      else (self, Rejected MessageTimeout))"

subsection \<open>\<^verbatim>\<open>getStarsByWalletAddress\<close>\<close>

text \<open>The \<^verbatim>\<open>for\<close> loop over \<^verbatim>\<open>self.chain\<close>, with the two arrays it fills.\<close>

fun scan_stars ::
  "string \<Rightarrow> 's block list \<Rightarrow> 's star_claim list \<times> decode_error list
     \<Rightarrow> 's star_claim list \<times> decode_error list" where
  "scan_stars address [] acc = acc"
| "scan_stars address (block # rest) (star_array, error_array) =
     (case getBData block of
        Inr block_data \<Rightarrow>
          (if owner block_data = address
           then scan_stars address rest (star_array @ [block_data], error_array)
           else scan_stars address rest (star_array, error_array))
      | Inl e \<Rightarrow> scan_stars address rest (star_array, error_array @ [e]))"

definition getStarsByWalletAddress ::
  "'s blockchain \<Rightarrow> string \<Rightarrow> ('s error, 's star_claim list) promise" where
  "getStarsByWalletAddress self address =
     Resolved (fst (scan_stars address (chain self) ([], [])))"


section \<open>Operations as steps of the ledger\<close>

text \<open>
  The methods of the class, with their arguments. \<^verbatim>\<open>_addBlock\<close> is private by
  convention only and is listed with the others.
\<close>

datatype 's operation =
    InitializeChain
  | GetChainHeight
  | AddBlock "'s block"
  | RequestMessageOwnershipVerification string
  | SubmitStar string string string 's
  | GetBlockByHash "string option"
  | GetBlockByHeight int
  | GetStarsByWalletAddress string
  | ValidateChain

text \<open>
  The state an operation leaves. Only \<^verbatim>\<open>_addBlock\<close>, and through it
  \<^verbatim>\<open>initializeChain\<close> and \<^verbatim>\<open>submitStar\<close>, assign \<^verbatim>\<open>this.chain\<close> or
  \<^verbatim>\<open>this.height\<close>; the other methods only read them.
\<close>

fun perform ::
  "('s block \<Rightarrow> string) \<Rightarrow> (string \<Rightarrow> string \<Rightarrow> string \<Rightarrow> bool) \<Rightarrow> int \<Rightarrow> int
     \<Rightarrow> 's operation \<Rightarrow> 's blockchain \<Rightarrow> 's blockchain" where
  "perform H V ms ms' InitializeChain self = initializeChain H ms self"
| "perform H V ms ms' (AddBlock block) self = fst (addBlock H ms self block)"
| "perform H V ms ms' (SubmitStar address msg sig st) self =
     fst (submitStar H V ms ms' self address msg sig st)"
| "perform H V ms ms' GetChainHeight self = self"
| "perform H V ms ms' (RequestMessageOwnershipVerification address) self = self"
| "perform H V ms ms' (GetBlockByHash h) self = self"
| "perform H V ms ms' (GetBlockByHeight n) self = self"
| "perform H V ms ms' (GetStarsByWalletAddress address) self = self"
| "perform H V ms ms' ValidateChain self = self"

text \<open>A run: operations one after the other, each with the readings of the clock it
  makes.\<close>

fun run ::
  "('s block \<Rightarrow> string) \<Rightarrow> (string \<Rightarrow> string \<Rightarrow> string \<Rightarrow> bool)
     \<Rightarrow> (int \<times> int \<times> 's operation) list \<Rightarrow> 's blockchain \<Rightarrow> 's blockchain" where
  "run H V [] self = self"
| "run H V ((ms, ms', op) # ops) self = run H V ops (perform H V ms ms' op self)"

section \<open>Properties stated by the specification\<close>

text \<open>The invariant of the data model: the length of the chain minus one is the height
  counter, and it is the height of the last block when there is one.\<close>

definition chain_inv :: "'s blockchain \<Rightarrow> bool" where
  "chain_inv self =
     (int (length (chain self)) - 1 = chain_height self \<and>
      (chain self \<noteq> [] \<longrightarrow> height (last (chain self)) = chain_height self))"

text \<open>The block at index \<open>i\<close> has height \<open>i\<close>, and the counter is the last index.\<close>

definition heights_indexed :: "'s blockchain \<Rightarrow> bool" where
  "heights_indexed self =
     (map height (chain self) = map int [0..<length (chain self)] \<and>
      chain_height self = int (length (chain self)) - 1)"

text \<open>A valid ledger: heights are indices, every block passes its own hash check, and
  every block after the first carries the hash of the block before it.\<close>

definition ledger_valid :: "('s block \<Rightarrow> string) \<Rightarrow> 's blockchain \<Rightarrow> bool" where
  "ledger_valid H self =
     (heights_indexed self \<and>
      (\<forall>b \<in> set (chain self). validate H b) \<and>
      (\<forall>i \<in> {1..<length (chain self)}.
         previousBlockHash (chain self ! i) = hash (chain self ! (i - 1))))"

text \<open>The specification's freshness test, \<^verbatim>\<open>elapsedMinutes > 5.0\<close> with
  \<^verbatim>\<open>elapsedMinutes = (now - embeddedTime) / 60\<close>; a comparison with \<^verbatim>\<open>NaN\<close>
  is false.\<close>

definition elapsed_exceeds_5 :: "jsnum \<Rightarrow> jsnum \<Rightarrow> bool" where
  "elapsed_exceeds_5 now embeddedTime =
     (case time_diff_min now embeddedTime of None \<Rightarrow> False | Some elapsedMinutes \<Rightarrow> elapsedMinutes > 5)"

text \<open>The specification's result of \<^verbatim>\<open>starsByOwner\<close>: the bodies that decode, in the
  order of the chain, and of those the ones of the owner.\<close>

definition decoded_bodies :: "'s block list \<Rightarrow> 's star_claim list" where
  "decoded_bodies blocks =
     concat (map (\<lambda>b. case getBData b of Inl e \<Rightarrow> [] | Inr d \<Rightarrow> [d]) blocks)"

definition decode_failures :: "'s block list \<Rightarrow> decode_error list" where
  "decode_failures blocks =
     concat (map (\<lambda>b. case getBData b of Inl e \<Rightarrow> [e] | Inr d \<Rightarrow> []) blocks)"

definition stars_of_owner :: "string \<Rightarrow> 's block list \<Rightarrow> 's star_claim list" where
  "stars_of_owner address blocks = filter (\<lambda>d. owner d = address) (decoded_bodies blocks)"

section \<open>Sample inputs\<close>

text \<open>A hash provider and two signature verifiers to evaluate the operations with.\<close>

definition sample_hash :: "string block \<Rightarrow> string" where
  "sample_hash b =
     toString (height b) @ '':'' @
     (case previousBlockHash b of None \<Rightarrow> ''null'' | Some p \<Rightarrow> take 3 p) @ '':'' @
     (case body b of GenesisData \<Rightarrow> ''Genesis Block'' | Claim d \<Rightarrow> owner d @ star d)"

definition accept :: "string \<Rightarrow> string \<Rightarrow> string \<Rightarrow> bool" where
  "accept msg address sig = True"

definition refuse :: "string \<Rightarrow> string \<Rightarrow> string \<Rightarrow> bool" where
  "refuse msg address sig = False"

text \<open>The ledger after its construction at 1700000000123 ms, and the same ledger with
  one star.\<close>

definition ledger0 :: "string blockchain" where
  "ledger0 = Blockchain sample_hash 1700000000123"

definition ledger1 :: "string blockchain" where
  "ledger1 =
     fst (submitStar sample_hash accept 1700000100000 1700000100001 ledger0
            ''1A2b3C'' ''1A2b3C:1700000000:starRegistry'' ''sig'' ''star1'')"

text \<open>The block that \<^verbatim>\<open>submitStar\<close> builds for that star.\<close>

definition sample_candidate :: "string block" where
  "sample_candidate =
     new_Block (Claim \<lparr>owner = ''1A2b3C'', signature = ''sig'',
                       message = ''1A2b3C:1700000000:starRegistry'', star = ''star1''\<rparr>)"

text \<open>\<open>ledger1\<close> after the previous hash of its second block was overwritten with a
  hash that no block has, and a ledger whose only block has a hash that is not its own.\<close>

definition ledger1_relinked :: "string blockchain" where
  "ledger1_relinked =
     ledger1\<lparr>chain := [chain ledger1 ! 0, (chain ledger1 ! 1)\<lparr>previousBlockHash := Some ''ffff''\<rparr>]\<rparr>"

definition ledger0_rehashed :: "string blockchain" where
  "ledger0_rehashed = ledger0\<lparr>chain := [(chain ledger0 ! 0)\<lparr>hash := Some ''ffff''\<rparr>]\<rparr>"


section \<open>Facts about the operations\<close>

subsection \<open>What \<^verbatim>\<open>_addBlock\<close> writes\<close>

lemma height_stamp: "height (stamp H ms self block) = chain_height self + 1"
  by (simp add: stamp_def Let_def)

lemma previousBlockHash_stamp:
  "previousBlockHash (stamp H ms self block) =
     (if chain_height self \<ge> 0 then hash (chain self ! nat (chain_height self))
      else previousBlockHash block)"
  by (simp add: stamp_def Let_def)

lemma body_stamp: "body (stamp H ms self block) = body block"
  by (simp add: stamp_def Let_def)

lemma hash_stamp:
  "hash (stamp H ms self block) =
     Some (H ((stamp H ms self block)\<lparr>hash := hash block\<rparr>))"
  by (simp add: stamp_def Let_def)

lemma fst_addBlock:
  "fst (addBlock H ms self block) =
     (if chain_height self \<ge> 0 \<and> \<not> nat (chain_height self) < length (chain self) then self
      else self\<lparr>chain := chain self @ [stamp H ms self block],
                 chain_height := chain_height self + 1\<rparr>)"
  by (simp add: addBlock_def Let_def split: option.splits promise.splits)

lemma addBlock_Resolved:
  assumes "addBlock H ms self block = (self', Resolved b)"
  shows "b = stamp H ms self block"
    and "self' = self\<lparr>chain := chain self @ [b], chain_height := chain_height self + 1\<rparr>"
    and "chain_height self \<ge> 0 \<Longrightarrow> nat (chain_height self) < length (chain self)"
    and "validateChain H self' = Some (Resolved [])"
  using assms
  by (auto simp: addBlock_def Let_def split: option.splits promise.splits if_splits)

lemma addBlock_Invalid:
  assumes "addBlock H ms self block = (self', Rejected (Invalid error_log))"
  shows "self' = self\<lparr>chain := chain self @ [stamp H ms self block],
                      chain_height := chain_height self + 1\<rparr>"
    and "validateChain H self' = Some (Resolved error_log) \<or>
         validateChain H self' = Some (Rejected (Invalid error_log))"
    and "validateChain H self' = Some (Resolved error_log) \<Longrightarrow> error_log \<noteq> []"
  using assms
  by (auto simp: addBlock_def Let_def split: option.splits promise.splits if_splits)

subsection \<open>What \<^verbatim>\<open>validateChain\<close> can resolve with\<close>

lemma getBlockByHash_Some:
  assumes "getBlockByHash self h = Some found"
  shows "hash found = h" and "found \<in> set (chain self)"
proof -
  from assms obtain rest where "filter (\<lambda>p. hash p = h) (chain self) = found # rest"
    by (auto simp: getBlockByHash_def split: list.splits)
  then have "found \<in> set (filter (\<lambda>p. hash p = h) (chain self))" by simp
  then show "hash found = h" and "found \<in> set (chain self)" by simp_all
qed

lemma getBlockByHash_None:
  "getBlockByHash self h = None \<longleftrightarrow> (\<forall>p \<in> set (chain self). hash p \<noteq> h)"
proof -
  have "getBlockByHash self h = None \<longleftrightarrow> filter (\<lambda>p. hash p = h) (chain self) = []"
    by (simp add: getBlockByHash_def split: list.splits)
  then show ?thesis by (simp add: filter_empty_conv)
qed

lemma validate_loop_blocks:
  assumes "validate_loop H self b errs = Some out" and "b \<in> set (chain self)"
  shows "out = Pending \<or>
     (\<exists>error_log. out = Resolved error_log \<and>
        set error_log \<subseteq> set errs \<union> BlockInvalid ` set (chain self))"
proof -
  have "b \<in> set (chain self) \<longrightarrow> out = Pending \<or>
     (\<exists>error_log. out = Resolved error_log \<and>
        set error_log \<subseteq> set errs \<union> BlockInvalid ` set (chain self))"
  proof (rule validate_loop.raw_induct
      [where P = "\<lambda>H self b errs out. b \<in> set (chain self) \<longrightarrow> out = Pending \<or>
         (\<exists>error_log. out = Resolved error_log \<and>
            set error_log \<subseteq> set errs \<union> BlockInvalid ` set (chain self))", OF _ assms(1)])
    fix loop :: "('a block \<Rightarrow> string) \<Rightarrow> 'a blockchain \<Rightarrow> 'a block \<Rightarrow> 'a validation_error list
       \<Rightarrow> ('a error, 'a validation_error list) promise option"
    fix H self b errs out
    assume IH: "\<And>H self b errs out. loop H self b errs = Some out \<Longrightarrow>
       b \<in> set (chain self) \<longrightarrow> out = Pending \<or>
         (\<exists>error_log. out = Resolved error_log \<and>
            set error_log \<subseteq> set errs \<union> BlockInvalid ` set (chain self))"
    assume step: "(if 0 < height b
        then let error_array1 = if \<not> validate H b then errs @ [BlockInvalid b] else errs
             in case getBlockByHash self (previousBlockHash b) of
                None \<Rightarrow> Some Pending
                | Some found \<Rightarrow>
                    loop H self found
                     (if previousBlockHash b \<noteq> hash found
                      then error_array1 @ [PreviousHashMismatch]
                      else error_array1)
        else Some (Resolved (if \<not> validate H b then errs @ [BlockInvalid b] else errs))) =
       Some out"
    show "b \<in> set (chain self) \<longrightarrow> out = Pending \<or>
         (\<exists>error_log. out = Resolved error_log \<and>
            set error_log \<subseteq> set errs \<union> BlockInvalid ` set (chain self))"
    proof
      assume mem: "b \<in> set (chain self)"
      show "out = Pending \<or>
         (\<exists>error_log. out = Resolved error_log \<and>
            set error_log \<subseteq> set errs \<union> BlockInvalid ` set (chain self))"
      proof (cases "0 < height b")
        case False
        with step mem show ?thesis by (auto split: if_splits)
      next
        case True
        show ?thesis
        proof (cases "getBlockByHash self (previousBlockHash b)")
          case None
          with True step show ?thesis by (simp add: Let_def)
        next
          case (Some found)
          then have eq: "hash found = previousBlockHash b" and fm: "found \<in> set (chain self)"
            by (simp_all add: getBlockByHash_Some)
          from True Some eq step have
            "loop H self found (if \<not> validate H b then errs @ [BlockInvalid b] else errs) = Some out"
            by (simp add: Let_def)
          from IH[OF this] fm mem show ?thesis by (auto split: if_splits)
        qed
      qed
    qed
  qed
  with assms(2) show ?thesis by blast
qed

lemma validateChain_blocks:
  assumes "validateChain H self = Some out"
  shows "out = Pending \<or>
     (\<exists>error_log. out = Resolved error_log \<and> set error_log \<subseteq> BlockInvalid ` set (chain self))"
proof (cases "length (chain self) \<ge> 1")
  case True
  with assms have "validate_loop H self (chain self ! (length (chain self) - 1)) [] = Some out"
    by (simp add: validateChain_def Let_def)
  moreover have "chain self ! (length (chain self) - 1) \<in> set (chain self)"
    using True by simp
  ultimately show ?thesis using validate_loop_blocks by fastforce
next
  case False
  with assms show ?thesis by (auto simp: validateChain_def Let_def)
qed

lemma validateChain_outcome:
  assumes "validateChain H self = Some out"
  shows "out = Pending \<or>
     (\<exists>error_log. out = Resolved error_log \<and> set error_log \<subseteq> range BlockInvalid)"
  using validateChain_blocks[OF assms] by blast

text \<open>The text \<^verbatim>\<open>'previous hash does not equal hash of previous block'\<close> is
  never in a list that \<^verbatim>\<open>validateChain\<close> resolves with: a block found under a hash
  has that hash.\<close>

lemma validateChain_never_records_link_error:
  "validateChain H self \<noteq> Some (Resolved error_log) \<or> PreviousHashMismatch \<notin> set error_log"
  using validateChain_outcome[of H self "Resolved error_log"] by auto

subsection \<open>The clock in whole seconds\<close>

text \<open>From one second after the epoch on, the expression that reads the clock gives the
  milliseconds divided by 1000.\<close>

lemma decimal_digit_facts:
  assumes "c \<in> set ''0123456789''"
  shows "\<not> is_white_space c" and "c \<noteq> CHR ''-''" and "c \<noteq> CHR ''+''"
    and "c \<noteq> CHR ''x''" and "c \<noteq> CHR ''X''" and "is_digit 10 c"
  using assms by (auto simp: is_white_space_def is_digit_def digit_value_def)

lemma digit_char_decimal: "digit_char d \<in> set ''0123456789''"
proof -
  have "nat (d mod 10) < length ''0123456789''" by simp
  then show ?thesis unfolding digit_char_def by (rule nth_mem)
qed

lemma digit_value_digit_char:
  assumes "0 \<le> d" and "d < 10"
  shows "digit_value (digit_char d) = Some d"
proof -
  from assms have "d = 0 \<or> d = 1 \<or> d = 2 \<or> d = 3 \<or> d = 4 \<or> d = 5 \<or> d = 6 \<or> d = 7 \<or> d = 8 \<or> d = 9"
    by arith
  then show ?thesis
    by (elim disjE) (simp_all add: digit_char_def digit_value_def eval_nat_numeral)
qed

lemma string_of_nat_decimal: "set (string_of_nat n) \<subseteq> set ''0123456789''"
proof (induction n rule: string_of_nat.induct)
  case (1 n)
  show ?case
  proof (cases "n < 10")
    case True
    then show ?thesis
      using digit_char_decimal[of n] by (subst string_of_nat.simps) simp
  next
    case False
    then show ?thesis
      using "1.IH" digit_char_decimal[of "n mod 10"] by (subst string_of_nat.simps) simp
  qed
qed

lemma string_of_nat_not_Nil: "string_of_nat n \<noteq> []"
  by (subst string_of_nat.simps) simp

lemma digits_value_snoc:
  "digits_value R (z @ [c]) = digits_value R z * R + the (digit_value c)"
  by (simp add: digits_value_def)

lemma digits_value_string_of_nat: "0 \<le> n \<Longrightarrow> digits_value 10 (string_of_nat n) = n"
proof (induction n rule: string_of_nat.induct)
  case (1 n)
  show ?case
  proof (cases "n < 10")
    case True
    with "1.prems" show ?thesis
      by (subst string_of_nat.simps) (simp add: digits_value_def digit_value_digit_char)
  next
    case False
    with "1.prems" have "digits_value 10 (string_of_nat (n div 10)) = n div 10"
      by (intro "1.IH") simp_all
    moreover have "digit_value (digit_char (n mod 10)) = Some (n mod 10)"
      by (rule digit_value_digit_char) simp_all
    ultimately show ?thesis
      using False by (subst string_of_nat.simps) (simp add: digits_value_snoc)
  qed
qed

lemma parseInt_decimal:
  assumes "s \<noteq> []" and "set s \<subseteq> set ''0123456789''"
  shows "parseInt s = Some (digits_value 10 s)"
proof -
  from assms(1) obtain a r where s: "s = a # r" by (cases s) auto
  have a: "a \<in> set ''0123456789''" using assms(2) s by auto
  have ws: "dropWhile is_white_space s = s"
    using decimal_digit_facts(1)[OF a] by (simp add: s)
  have sign: "a \<noteq> CHR ''-''" "a \<noteq> CHR ''+''"
    using decimal_digit_facts(2,3)[OF a] by simp_all
  have nohex: "take 2 s \<noteq> ''0x''" "take 2 s \<noteq> ''0X''"
  proof -
    show "take 2 s \<noteq> ''0x''"
    proof (cases r)
      case Nil
      then show ?thesis by (simp add: s)
    next
      case (Cons b r')
      then have "b \<in> set ''0123456789''" using assms(2) s by auto
      from decimal_digit_facts(4)[OF this] show ?thesis by (simp add: s Cons)
    qed
    show "take 2 s \<noteq> ''0X''"
    proof (cases r)
      case Nil
      then show ?thesis by (simp add: s)
    next
      case (Cons b r')
      then have "b \<in> set ''0123456789''" using assms(2) s by auto
      from decimal_digit_facts(5)[OF this] show ?thesis by (simp add: s Cons)
    qed
  qed
  have all: "takeWhile (is_digit 10) s = s"
    using assms(2) decimal_digit_facts(6) by (simp add: takeWhile_eq_all_conv subset_iff)
  have "s \<noteq> [] \<and> hd s \<noteq> CHR ''-'' \<and> hd s \<noteq> CHR ''+''" using sign by (simp add: s)
  then show ?thesis
    unfolding parseInt_def ws Let_def
    using nohex assms(1) by (simp add: all)
qed

lemma parseInt_string_of_nat: "0 \<le> n \<Longrightarrow> parseInt (string_of_nat n) = Some n"
  using parseInt_decimal[OF string_of_nat_not_Nil string_of_nat_decimal, of n]
  by (simp add: digits_value_string_of_nat)

lemma string_of_nat_step: "10 \<le> n \<Longrightarrow> string_of_nat n = string_of_nat (n div 10) @ [digit_char (n mod 10)]"
  by (subst string_of_nat.simps) simp

lemma string_of_nat_thousands:
  assumes "1000 \<le> n"
  shows "string_of_nat n =
     string_of_nat (n div 1000) @
       [digit_char (n div 100 mod 10), digit_char (n div 10 mod 10), digit_char (n mod 10)]"
proof -
  have a: "10 \<le> n" "10 \<le> n div 10" "10 \<le> n div 100" using assms by simp_all
  have d: "n div 10 div 10 = n div 100" "n div 100 div 10 = n div 1000"
    by (simp_all add: zdiv_zmult2_eq)
  have "string_of_nat n = string_of_nat (n div 10) @ [digit_char (n mod 10)]"
    using a(1) by (rule string_of_nat_step)
  also have "string_of_nat (n div 10) = string_of_nat (n div 100) @ [digit_char (n div 10 mod 10)]"
    using string_of_nat_step[OF a(2)] by (simp add: d)
  also have "string_of_nat (n div 100) = string_of_nat (n div 1000) @ [digit_char (n div 100 mod 10)]"
    using string_of_nat_step[OF a(3)] by (simp add: d)
  finally show ?thesis by simp
qed

lemma curr_timestamp_seconds:
  assumes "1000 \<le> ms"
  shows "curr_timestamp ms = Some (ms div 1000)"
proof -
  have "toString ms = string_of_nat ms" using assms by (simp add: toString_def)
  then have "slice_0_m3 (toString ms) = string_of_nat (ms div 1000)"
    by (simp add: slice_0_m3_def string_of_nat_thousands[OF assms])
  moreover have "0 \<le> ms div 1000" using assms by simp
  ultimately show ?thesis by (simp add: curr_timestamp_def parseInt_string_of_nat)
qed

subsection \<open>The state and the promise of \<^verbatim>\<open>submitStar\<close>\<close>

lemma fst_submitStar:
  "fst (submitStar H V ms ms' self address msg sig st) =
     (if js_le (time_diff_min (curr_timestamp ms) (message_time msg)) 5 \<and> V msg address sig
      then fst (addBlock H ms' self
             (new_Block (Claim \<lparr>owner = address, signature = sig, message = msg, star = st\<rparr>)))
      else self)"
  by (simp add: submitStar_def Let_def split: prod.splits promise.splits)

lemma snd_submitStar:
  "snd (submitStar H V ms ms' self address msg sig st) =
     (if js_le (time_diff_min (curr_timestamp ms) (message_time msg)) 5 then
        if V msg address sig then
          (case snd (addBlock H ms' self
             (new_Block (Claim \<lparr>owner = address, signature = sig, message = msg, star = st\<rparr>))) of
             Resolved b \<Rightarrow> Resolved b | Rejected e \<Rightarrow> Pending | Pending \<Rightarrow> Pending)
        else Rejected MessageNotVerified
      else Rejected MessageTimeout)"
  by (simp add: submitStar_def Let_def split: prod.splits promise.splits)

lemma submitStar_timeout_iff:
  "snd (submitStar H V ms ms' self address msg sig st) = Rejected MessageTimeout \<longleftrightarrow>
     \<not> js_le (time_diff_min (curr_timestamp ms) (message_time msg)) 5"
  by (simp add: snd_submitStar split: promise.splits)

lemma not_fresh_iff:
  "\<not> js_le (time_diff_min now t) 5 \<longleftrightarrow> now = None \<or> t = None \<or> elapsed_exceeds_5 now t"
  by (auto simp: js_le_def time_diff_min_def elapsed_exceeds_5_def split: option.splits)

lemma split_colon_no_colon: "CHR '':'' \<notin> set s \<Longrightarrow> split_colon s = [s]"
  by (induction s) auto

lemma parseInt_undefined: "parseInt ''undefined'' = None"
  by code_simp

lemma message_time_no_colon: "CHR '':'' \<notin> set msg \<Longrightarrow> message_time msg = None"
  by (simp add: message_time_def split_colon_no_colon index_def parseInt_value_def parseInt_undefined)

lemma getBData_stamp: "getBData (stamp H ms self block) = getBData block"
  by (simp add: getBData_def body_stamp)

subsection \<open>Invariants of the operations\<close>

lemma chain_inv_addBlock:
  assumes "chain_inv self"
  shows "chain_inv (fst (addBlock H ms self block))"
proof (cases "chain_height self \<ge> 0 \<and> \<not> nat (chain_height self) < length (chain self)")
  case True
  then show ?thesis using assms by (simp add: fst_addBlock)
next
  case False
  then have "fst (addBlock H ms self block) =
      self\<lparr>chain := chain self @ [stamp H ms self block],
           chain_height := chain_height self + 1\<rparr>"
    by (simp add: fst_addBlock)
  then show ?thesis using assms by (auto simp: chain_inv_def height_stamp)
qed

lemma addBlock_pushes:
  assumes "chain_height self = int (length (chain self)) - 1"
  shows "fst (addBlock H ms self block) =
      self\<lparr>chain := chain self @ [stamp H ms self block],
           chain_height := chain_height self + 1\<rparr>"
proof -
  have "chain_height self \<ge> 0 \<Longrightarrow> nat (chain_height self) < length (chain self)"
    using assms by (cases "chain self") simp_all
  then have "\<not> (chain_height self \<ge> 0 \<and> \<not> nat (chain_height self) < length (chain self))"
    by blast
  then show ?thesis by (simp add: fst_addBlock)
qed

lemma heights_indexed_addBlock:
  assumes "heights_indexed self"
  shows "heights_indexed (fst (addBlock H ms self block))"
proof -
  from assms have h: "chain_height self = int (length (chain self)) - 1"
    and m: "map height (chain self) = map int [0..<length (chain self)]"
    by (simp_all add: heights_indexed_def)
  show ?thesis
    unfolding addBlock_pushes[OF h]
    using h m by (simp add: heights_indexed_def height_stamp)
qed

lemma nonempty_addBlock:
  "chain self \<noteq> [] \<Longrightarrow> chain (fst (addBlock H ms self block)) \<noteq> []"
  by (simp add: fst_addBlock)

lemma Blockchain_eq:
  "Blockchain H ms =
     \<lparr>chain = [stamp H ms \<lparr>chain = [], chain_height = - 1\<rparr> (new_Block GenesisData)],
      chain_height = 0\<rparr>"
  by (simp add: Blockchain_def initializeChain_def fst_addBlock)

lemma chain_inv_perform:
  "chain_inv self \<Longrightarrow> chain_inv (perform H V ms ms' op self)"
  by (cases op) (simp_all add: initializeChain_def fst_submitStar chain_inv_addBlock)

lemma heights_indexed_perform:
  "heights_indexed self \<Longrightarrow> heights_indexed (perform H V ms ms' op self)"
  by (cases op) (simp_all add: initializeChain_def fst_submitStar heights_indexed_addBlock)

lemma nonempty_perform:
  "chain self \<noteq> [] \<Longrightarrow> chain (perform H V ms ms' op self) \<noteq> []"
  by (cases op) (simp_all add: initializeChain_def fst_submitStar nonempty_addBlock)

lemma run_preserves:
  assumes "\<And>ms ms' op s. P s \<Longrightarrow> P (perform H V ms ms' op s)" and "P self"
  shows "P (run H V ops self)"
  using assms(2)
proof (induction ops arbitrary: self)
  case Nil
  then show ?case by simp
next
  case (Cons x ops)
  obtain ms ms' op where x: "x = (ms, ms', op)" by (cases x) auto
  from Cons.prems have "P (perform H V ms ms' op self)" by (rule assms(1))
  then have "P (run H V ops (perform H V ms ms' op self))" by (rule Cons.IH)
  then show ?case by (simp add: x)
qed

lemma validate_genesis:
  "validate H (stamp H ms \<lparr>chain = [], chain_height = - 1\<rparr> (new_Block GenesisData))"
  unfolding validate_def
  using hash_stamp[of H ms "\<lparr>chain = [], chain_height = - 1\<rparr>" "new_Block GenesisData"]
  by (simp add: new_Block_def)

lemma initialization_resolves:
  "addBlock H ms \<lparr>chain = [], chain_height = - 1\<rparr> (new_Block GenesisData) =
     (Blockchain H ms, Resolved (hd (chain (Blockchain H ms))))"
proof -
  let ?g = "stamp H ms \<lparr>chain = [], chain_height = - 1\<rparr> (new_Block GenesisData)"
  let ?s = "\<lparr>chain = [?g], chain_height = 0\<rparr>"
  have "validate_loop H ?s ?g [] = Some (Resolved [])"
    by (subst validate_loop.simps) (simp add: height_stamp validate_genesis)
  then have "validateChain H ?s = Some (Resolved [])"
    by (simp add: validateChain_def)
  then show ?thesis
    by (simp add: addBlock_def Let_def Blockchain_eq)
qed

subsection \<open>Valid ledgers\<close>

text \<open>On a valid ledger the loop of \<^verbatim>\<open>validateChain\<close> ends and the promise resolves
  with the empty list: the block found under a previous hash is at a smaller index, even
  when several blocks have that hash. An append of a block that comes with its hash unset
  therefore resolves and leaves a valid ledger.\<close>

lemma filter_first:
  assumes "filter P xs = y # ys" and "i < length xs" and "P (xs ! i)"
  shows "\<exists>j \<le> i. xs ! j = y"
  using assms
proof (induction xs arbitrary: i)
  case Nil
  then show ?case by simp
next
  case (Cons x xs)
  show ?case
  proof (cases "P x")
    case True
    with Cons.prems(1) have "x = y" by simp
    then have "(x # xs) ! 0 = y" by simp
    then show ?thesis by blast
  next
    case False
    with Cons.prems(3) obtain k where k: "i = Suc k" by (cases i) auto
    from False Cons.prems(1) have "filter P xs = y # ys" by simp
    moreover have "k < length xs" "P (xs ! k)" using Cons.prems(2,3) k by simp_all
    ultimately obtain j where "j \<le> k" "xs ! j = y" using Cons.IH by blast
    then have "Suc j \<le> i" "(x # xs) ! Suc j = y" using k by simp_all
    then show ?thesis by blast
  qed
qed

lemma getBlockByHash_first:
  assumes "i < length (chain self)" and "hash (chain self ! i) = h"
  shows "\<exists>j \<le> i. getBlockByHash self h = Some (chain self ! j)"
proof -
  have "chain self ! i \<in> set (filter (\<lambda>p. hash p = h) (chain self))"
    using assms by simp
  then obtain y ys where f: "filter (\<lambda>p. hash p = h) (chain self) = y # ys"
    by (cases "filter (\<lambda>p. hash p = h) (chain self)") auto
  from filter_first[OF f assms(1)] assms(2) obtain j where "j \<le> i" "chain self ! j = y"
    by blast
  then show ?thesis using f by (auto simp: getBlockByHash_def)
qed

lemma heights_indexed_nth:
  assumes "heights_indexed self" and "i < length (chain self)"
  shows "height (chain self ! i) = int i"
proof -
  from assms(1) have "map height (chain self) ! i = map int [0..<length (chain self)] ! i"
    by (simp add: heights_indexed_def)
  then show ?thesis using assms(2) by simp
qed

lemma validate_loop_valid:
  assumes "ledger_valid H self" and "i < length (chain self)"
  shows "validate_loop H self (chain self ! i) [] = Some (Resolved [])"
  using assms(2)
proof (induction i rule: less_induct)
  case (less i)
  let ?b = "chain self ! i"
  from assms(1) have hi: "heights_indexed self" by (simp add: ledger_valid_def)
  have h: "height ?b = int i" using hi less.prems by (rule heights_indexed_nth)
  have v: "validate H ?b" using assms(1) less.prems by (simp add: ledger_valid_def)
  show ?case
  proof (cases "i = 0")
    case True
    then show ?thesis using h v by (subst validate_loop.simps) simp
  next
    case False
    then have "i \<in> {1..<length (chain self)}" using less.prems by simp
    with assms(1) have link: "previousBlockHash ?b = hash (chain self ! (i - 1))"
      by (simp add: ledger_valid_def)
    have "i - 1 < length (chain self)" using less.prems by simp
    from getBlockByHash_first[OF this link[symmetric]]
    obtain j where j: "j \<le> i - 1"
      "getBlockByHash self (previousBlockHash ?b) = Some (chain self ! j)" by blast
    have eq: "hash (chain self ! j) = previousBlockHash ?b"
      using j(2) by (rule getBlockByHash_Some(1))
    have "j < i" using j(1) False by simp
    moreover have "j < length (chain self)" using \<open>j < i\<close> less.prems by simp
    ultimately have "validate_loop H self (chain self ! j) [] = Some (Resolved [])"
      by (rule less.IH)
    then show ?thesis
      using False h v j(2) eq by (subst validate_loop.simps) simp
  qed
qed

lemma validateChain_valid:
  assumes "ledger_valid H self"
  shows "validateChain H self = Some (Resolved [])"
proof (cases "chain self")
  case Nil
  then show ?thesis by (simp add: validateChain_def)
next
  case (Cons b bs)
  then have "length (chain self) - 1 < length (chain self)" by simp
  from validate_loop_valid[OF assms this] Cons show ?thesis
    by (simp add: validateChain_def)
qed

lemma validate_stamp:
  assumes "hash block = None"
  shows "validate H (stamp H ms self block)"
  unfolding validate_def using hash_stamp[of H ms self block] assms by simp

lemma ledger_valid_push:
  assumes "ledger_valid H self" and "hash block = None"
  shows "ledger_valid H
     (self\<lparr>chain := chain self @ [stamp H ms self block],
           chain_height := chain_height self + 1\<rparr>)"
proof -
  let ?b = "stamp H ms self block"
  let ?s = "self\<lparr>chain := chain self @ [?b], chain_height := chain_height self + 1\<rparr>"
  from assms(1) have hi: "heights_indexed self"
    and va: "\<forall>b \<in> set (chain self). validate H b"
    and li: "\<forall>i \<in> {1..<length (chain self)}.
         previousBlockHash (chain self ! i) = hash (chain self ! (i - 1))"
    by (simp_all add: ledger_valid_def)
  from hi have ch: "chain_height self = int (length (chain self)) - 1"
    by (simp add: heights_indexed_def)
  have "heights_indexed (fst (addBlock H ms self block))" using hi by (rule heights_indexed_addBlock)
  then have 1: "heights_indexed ?s" by (simp add: addBlock_pushes[OF ch])
  have 2: "\<forall>b \<in> set (chain ?s). validate H b"
    using va validate_stamp[OF assms(2)] by simp
  have 3: "previousBlockHash (chain ?s ! i) = hash (chain ?s ! (i - 1))"
    if "i \<in> {1..<length (chain ?s)}" for i
  proof (cases "i < length (chain self)")
    case True
    then have "i - 1 < length (chain self)" by simp
    moreover have "i \<in> {1..<length (chain self)}" using True that by simp
    ultimately show ?thesis using True li by (simp add: nth_append)
  next
    case False
    with that have i: "i = length (chain self)" "0 < length (chain self)" by auto
    then have "nat (chain_height self) = length (chain self) - 1" "0 \<le> chain_height self"
      using ch by simp_all
    then show ?thesis using i by (simp add: nth_append previousBlockHash_stamp)
  qed
  from 1 2 3 show ?thesis unfolding ledger_valid_def by blast
qed

lemma addBlock_valid:
  assumes "ledger_valid H self" and "hash block = None"
  shows "addBlock H ms self block =
     (self\<lparr>chain := chain self @ [stamp H ms self block],
           chain_height := chain_height self + 1\<rparr>,
      Resolved (stamp H ms self block))"
proof -
  from assms(1) have ch: "chain_height self = int (length (chain self)) - 1"
    by (simp add: ledger_valid_def heights_indexed_def)
  then have "chain_height self \<ge> 0 \<Longrightarrow> nat (chain_height self) < length (chain self)"
    by (cases "chain self") simp_all
  then have g: "\<not> (chain_height self \<ge> 0 \<and> \<not> nat (chain_height self) < length (chain self))"
    by blast
  have "validateChain H (self\<lparr>chain := chain self @ [stamp H ms self block],
           chain_height := chain_height self + 1\<rparr>) = Some (Resolved [])"
    using ledger_valid_push[OF assms] by (rule validateChain_valid)
  then show ?thesis using g by (simp add: addBlock_def Let_def)
qed

lemma ledger_valid_Blockchain: "ledger_valid H (Blockchain H ms)"
proof -
  have "ledger_valid H \<lparr>chain = [], chain_height = - 1\<rparr>"
    by (simp add: ledger_valid_def heights_indexed_def)
  from ledger_valid_push[OF this, of "new_Block GenesisData" ms] show ?thesis
    by (simp add: Blockchain_eq new_Block_def)
qed

lemma submitStar_valid:
  assumes "ledger_valid H self"
    and "js_le (time_diff_min (curr_timestamp ms) (message_time msg)) 5"
    and "V msg address sig"
  shows "submitStar H V ms ms' self address msg sig st =
     (self\<lparr>chain := chain self @ [stamp H ms' self (new_Block
          (Claim \<lparr>owner = address, signature = sig, message = msg, star = st\<rparr>))],
        chain_height := chain_height self + 1\<rparr>,
      Resolved (stamp H ms' self (new_Block
          (Claim \<lparr>owner = address, signature = sig, message = msg, star = st\<rparr>))))"
proof -
  have "hash (new_Block (Claim \<lparr>owner = address, signature = sig, message = msg, star = st\<rparr>)) = None"
    by (simp add: new_Block_def)
  from addBlock_valid[OF assms(1) this, of ms'] assms(2,3) show ?thesis
    by (simp add: submitStar_def)
qed

lemma ledger_valid_submitStar:
  assumes "ledger_valid H self"
  shows "ledger_valid H (fst (submitStar H V ms ms' self address msg sig st))"
proof (cases "js_le (time_diff_min (curr_timestamp ms) (message_time msg)) 5 \<and> V msg address sig")
  case True
  have "hash (new_Block (Claim \<lparr>owner = address, signature = sig, message = msg, star = st\<rparr>)) = None"
    by (simp add: new_Block_def)
  from ledger_valid_push[OF assms this, of ms'] True submitStar_valid[OF assms, of ms msg V address sig ms' st]
  show ?thesis by simp
next
  case False
  then show ?thesis using assms by (auto simp: fst_submitStar)
qed

subsection \<open>The timestamp of an issued message\<close>

text \<open>The message that \<^verbatim>\<open>requestMessageOwnershipVerification\<close> issues for an
  address without a colon carries the seconds of the clock as its second field.\<close>

lemma split_colon_not_Nil: "split_colon s \<noteq> []"
  by (induction s) (auto split: list.splits)

lemma split_colon_field:
  "CHR '':'' \<notin> set a \<Longrightarrow> split_colon (a @ CHR '':'' # rest) = a # split_colon rest"
  by (induction a) auto

lemma issued_message_time:
  assumes "1000 \<le> ms" and "CHR '':'' \<notin> set address"
  shows "message_time (requestMessageOwnershipVerification ms address) = Some (ms div 1000)"
proof -
  let ?d = "string_of_nat (ms div 1000)"
  have t: "slice_0_m3 (toString ms) = ?d"
    using assms(1) by (simp add: toString_def slice_0_m3_def string_of_nat_thousands)
  have "CHR '':'' \<notin> set ''0123456789''" by simp
  then have nd: "CHR '':'' \<notin> set ?d" using string_of_nat_decimal[of "ms div 1000"] by blast
  have "requestMessageOwnershipVerification ms address =
      address @ CHR '':'' # (?d @ CHR '':'' # ''starRegistry'')"
    by (simp add: requestMessageOwnershipVerification_def t)
  then have "split_colon (requestMessageOwnershipVerification ms address) =
      address # ?d # split_colon ''starRegistry''"
    by (simp only: split_colon_field[OF assms(2)] split_colon_field[OF nd])
  then have "index (split_colon (requestMessageOwnershipVerification ms address)) 1 = Some ?d"
    by (simp add: index_def)
  moreover have "0 \<le> ms div 1000" using assms(1) by simp
  ultimately show ?thesis
    by (simp add: message_time_def parseInt_value_def parseInt_string_of_nat)
qed

subsection \<open>The scan of \<^verbatim>\<open>getStarsByWalletAddress\<close>\<close>

lemma scan_stars_eq:
  "scan_stars address blocks (star_array, error_array) =
     (star_array @ stars_of_owner address blocks, error_array @ decode_failures blocks)"
proof (induction blocks arbitrary: star_array error_array)
  case Nil
  then show ?case by (simp add: stars_of_owner_def decoded_bodies_def decode_failures_def)
next
  case (Cons b blocks)
  show ?case
  proof (cases "getBData b")
    case (Inl e)
    then show ?thesis
      by (simp add: Cons.IH stars_of_owner_def decoded_bodies_def decode_failures_def)
  next
    case (Inr d)
    then show ?thesis
      by (simp add: Cons.IH stars_of_owner_def decoded_bodies_def decode_failures_def)
  qed
qed

lemma heights_indexed_sorted:
  assumes "heights_indexed self"
  shows "sorted_wrt (<) (map height (chain self))"
proof -
  have "sorted_wrt (<) (map int [0..<length (chain self)])"
    by (simp add: sorted_wrt_map)
  then show ?thesis using assms by (simp add: heights_indexed_def)
qed

section \<open>Appending a block\<close>

text \<open>
  Claim C1. On a chain whose height counter is \<open>h \<ge> 0\<close>, an append that resolves
  gives a block of height \<open>h + 1\<close> whose previous hash is the hash of the block at index
  \<open>h\<close>, the tip before the append (the last block, when the counter is the last index);
  the block is pushed at the end of the chain and the counter becomes \<open>h + 1\<close>.
\<close>

theorem addBlock_links_to_tip:
  assumes "0 \<le> chain_height self"
    and "addBlock H ms self block = (self', Resolved b)"
  shows "height b = chain_height self + 1 \<and>
         previousBlockHash b = hash (chain self ! nat (chain_height self)) \<and>
         nat (chain_height self) < length (chain self) \<and>
         (chain_height self = int (length (chain self)) - 1 \<longrightarrow>
            chain self ! nat (chain_height self) = last (chain self)) \<and>
         chain self' = chain self @ [b] \<and>
         last (chain self') = b \<and>
         chain_height self' = chain_height self + 1"
proof -
  note r = addBlock_Resolved[OF assms(2)]
  have lt: "nat (chain_height self) < length (chain self)" using r(3) assms(1) by simp
  have tip: "chain_height self = int (length (chain self)) - 1 \<longrightarrow>
      chain self ! nat (chain_height self) = last (chain self)"
  proof
    assume "chain_height self = int (length (chain self)) - 1"
    then have "nat (chain_height self) = length (chain self) - 1" by simp
    moreover have "chain self \<noteq> []" using lt by auto
    ultimately show "chain self ! nat (chain_height self) = last (chain self)"
      by (simp add: last_conv_nth)
  qed
  have "height b = chain_height self + 1" using r(1) by (simp add: height_stamp)
  moreover have "previousBlockHash b = hash (chain self ! nat (chain_height self))"
    using r(1) assms(1) by (simp add: previousBlockHash_stamp)
  moreover have "chain self' = chain self @ [b]" using r(2) by simp
  moreover have "chain_height self' = chain_height self + 1" using r(2) by simp
  ultimately show ?thesis using lt tip by simp
qed

theorem addBlock_links_to_tip_witness:
  "0 \<le> chain_height ledger0 \<and>
   addBlock sample_hash 1700000100001 ledger0 sample_candidate =
     (ledger1, Resolved (last (chain ledger1))) \<and>
   height (last (chain ledger1)) = 1 \<and>
   previousBlockHash (last (chain ledger1)) = hash (last (chain ledger0)) \<and>
   chain ledger1 = chain ledger0 @ [last (chain ledger1)] \<and>
   chain_height ledger1 = 1"
proof -
  have h1: "0 \<le> chain_height ledger0" by code_simp
  have h2: "addBlock sample_hash 1700000100001 ledger0 sample_candidate =
     (ledger1, Resolved (last (chain ledger1)))" by code_simp
  have h3: "chain_height ledger0 = int (length (chain ledger0)) - 1" by code_simp
  have h4: "chain_height ledger0 = 0" by code_simp
  from addBlock_links_to_tip[OF h1 h2] h1 h2 h3 h4 show ?thesis by simp
qed

text \<open>
  Claim C3. The hash stored in an appended block is the hash provider applied to the
  block with its hash field unset, that is, to its other fields. This holds for every
  candidate that comes with its hash unset, as the blocks that \<^verbatim>\<open>initializeChain\<close>
  and \<^verbatim>\<open>submitStar\<close> build do: for the block of every resolved \<^verbatim>\<open>submitStar\<close>
  and for the genesis block.
\<close>

theorem addBlock_hash_of_other_fields:
  "(hash block = None \<and> chain (fst (addBlock H ms self block)) = chain self @ [b] \<longrightarrow>
      hash b = Some (H (b\<lparr>hash := None\<rparr>))) \<and>
   (submitStar H V msa msb self address msg sig st = (self', Resolved b') \<longrightarrow>
      hash b' = Some (H (b'\<lparr>hash := None\<rparr>))) \<and>
   (\<forall>g \<in> set (chain (Blockchain H msc)). hash g = Some (H (g\<lparr>hash := None\<rparr>)))"
proof (intro conjI impI)
  assume a: "hash block = None \<and> chain (fst (addBlock H ms self block)) = chain self @ [b]"
  then have "b = stamp H ms self block"
    by (auto simp: fst_addBlock split: if_splits)
  with a show "hash b = Some (H (b\<lparr>hash := None\<rparr>))"
    using hash_stamp[of H ms self block] by simp
next
  assume a: "submitStar H V msa msb self address msg sig st = (self', Resolved b')"
  let ?c = "new_Block (Claim \<lparr>owner = address, signature = sig, message = msg, star = st\<rparr>)"
  from a have "addBlock H msb self ?c = (self', Resolved b')"
    by (auto simp: submitStar_def Let_def split: if_splits prod.splits promise.splits)
  then have "b' = stamp H msb self ?c" by (rule addBlock_Resolved(1))
  moreover have "hash ?c = None" by (simp add: new_Block_def)
  ultimately show "hash b' = Some (H (b'\<lparr>hash := None\<rparr>))"
    using hash_stamp[of H msb self ?c] by simp
next
  let ?e = "\<lparr>chain = [], chain_height = - 1\<rparr> :: 'a blockchain"
  let ?g = "stamp H msc ?e (new_Block GenesisData)"
  have "chain (Blockchain H msc) = [?g]"
    by (simp add: Blockchain_def initializeChain_def fst_addBlock)
  moreover have "hash ?g = Some (H (?g\<lparr>hash := None\<rparr>))"
    using hash_stamp[of H msc ?e "new_Block GenesisData"] by (simp add: new_Block_def)
  ultimately show "\<forall>g \<in> set (chain (Blockchain H msc)). hash g = Some (H (g\<lparr>hash := None\<rparr>))"
    by simp
qed

theorem addBlock_hash_of_other_fields_witness:
  "hash sample_candidate = None \<and>
   chain (fst (addBlock sample_hash 1700000100001 ledger0 sample_candidate)) =
     chain ledger0 @ [last (chain ledger1)] \<and>
   submitStar sample_hash accept 1700000100000 1700000100001 ledger0
      ''1A2b3C'' ''1A2b3C:1700000000:starRegistry'' ''sig'' ''star1'' =
     (ledger1, Resolved (last (chain ledger1))) \<and>
   hash (last (chain ledger1)) = Some (sample_hash ((last (chain ledger1))\<lparr>hash := None\<rparr>)) \<and>
   hd (chain ledger0) \<in> set (chain (Blockchain sample_hash 1700000000123)) \<and>
   hash (hd (chain ledger0)) = Some (sample_hash ((hd (chain ledger0))\<lparr>hash := None\<rparr>))"
proof -
  have h1: "hash sample_candidate = None" by code_simp
  have h2: "chain (fst (addBlock sample_hash 1700000100001 ledger0 sample_candidate)) =
     chain ledger0 @ [last (chain ledger1)]" by code_simp
  have h3: "submitStar sample_hash accept 1700000100000 1700000100001 ledger0
      ''1A2b3C'' ''1A2b3C:1700000000:starRegistry'' ''sig'' ''star1'' =
     (ledger1, Resolved (last (chain ledger1)))" by code_simp
  have h4: "hd (chain ledger0) \<in> set (chain (Blockchain sample_hash 1700000000123))"
    by code_simp
  from addBlock_hash_of_other_fields
    [where block = sample_candidate and H = sample_hash and ms = 1700000100001
       and self = ledger0 and b = "last (chain ledger1)" and V = accept
       and msa = 1700000100000 and msb = 1700000100001 and address = "''1A2b3C''"
       and msg = "''1A2b3C:1700000000:starRegistry''" and sig = "''sig''"
       and st = "''star1''" and self' = ledger1 and b' = "last (chain ledger1)"
       and msc = 1700000000123]
    h1 h2 h3 h4
  show ?thesis by blast
qed

text \<open>
  Claim C9. When the promise of \<^verbatim>\<open>_addBlock\<close> rejects with the error
  \<^verbatim>\<open>"invalid"\<close> that carries the log of \<^verbatim>\<open>validateChain\<close>, nothing is undone:
  the new block is at the end of the chain, the height counter is advanced, and the log
  is what validating the chain that is left resolves with: it is not empty, and each of
  its entries is a block of the chain that is left, one whose own hash check fails.
\<close>

theorem addBlock_failure_keeps_block:
  assumes "addBlock H ms self block = (self', Rejected (Invalid error_log))"
  shows "chain self' = chain self @ [stamp H ms self block] \<and>
         chain_height self' = chain_height self + 1 \<and>
         validateChain H self' = Some (Resolved error_log) \<and>
         error_log \<noteq> [] \<and>
         set error_log \<subseteq> BlockInvalid ` set (chain self')"
proof -
  note r = addBlock_Invalid[OF assms]
  from validateChain_outcome[of H self' "Rejected (Invalid error_log)"] r(2)
  have v: "validateChain H self' = Some (Resolved error_log)" by auto
  from validateChain_blocks[OF v]
  have "set error_log \<subseteq> BlockInvalid ` set (chain self')" by simp
  with v r(1) r(3) show ?thesis by simp
qed

theorem addBlock_failure_keeps_block_witness:
  "addBlock sample_hash 1700000200000 ledger0_rehashed sample_candidate =
     (ledger0_rehashed\<lparr>chain := chain ledger0_rehashed @
          [stamp sample_hash 1700000200000 ledger0_rehashed sample_candidate],
        chain_height := 1\<rparr>,
      Rejected (Invalid [BlockInvalid (hd (chain ledger0_rehashed))])) \<and>
   length (chain ledger0_rehashed) = 1 \<and>
   chain_height ledger0_rehashed = 0"
proof -
  have h: "addBlock sample_hash 1700000200000 ledger0_rehashed sample_candidate =
     (ledger0_rehashed\<lparr>chain := chain ledger0_rehashed @
          [stamp sample_hash 1700000200000 ledger0_rehashed sample_candidate],
        chain_height := 1\<rparr>,
      Rejected (Invalid [BlockInvalid (hd (chain ledger0_rehashed))]))" by code_simp
  have l: "length (chain ledger0_rehashed) = 1" "chain_height ledger0_rehashed = 0"
    by code_simp+
  from addBlock_failure_keeps_block[OF h] h l show ?thesis by simp
qed


section \<open>Validating the chain\<close>

text \<open>
  Claim C2. The claim is that, when the lookup of the predecessor by the previous hash
  fails or the block found has another hash, validation records a linkage error and still
  resolves with its list. On the ledger whose second block had its previous hash
  overwritten, no block has that hash and it is not the hash of the first block; the
  lookup gives \<^verbatim>\<open>null\<close>, reading its hash throws inside the async executor, and the
  promise of \<^verbatim>\<open>validateChain\<close> never settles, where the untouched ledger validates
  with an empty list.
\<close>

theorem validateChain_relinked_never_settles:
  "getBlockByHash ledger1_relinked (previousBlockHash (chain ledger1_relinked ! 1)) = None \<and>
   previousBlockHash (chain ledger1_relinked ! 1) \<noteq> hash (chain ledger1_relinked ! 0) \<and>
   validateChain sample_hash ledger1_relinked = Some Pending \<and>
   validateChain sample_hash ledger1 = Some (Resolved [])"
  by code_simp

section \<open>The invariant of the chain\<close>

text \<open>
  Claim C6. The ledger that the constructor leaves has a chain that is not empty and
  satisfies the invariant (the length of the chain minus one is the height counter and
  the height of the last block), and the promise of its \<^verbatim>\<open>_addBlock\<close> resolves with
  the genesis block. Every operation keeps the invariant and keeps the chain non-empty, so
  both hold after every run of operations on a new ledger.
\<close>

theorem chain_invariant:
  "chain (Blockchain H ms) \<noteq> [] \<and>
   chain_inv (Blockchain H ms) \<and>
   addBlock H ms \<lparr>chain = [], chain_height = - 1\<rparr> (new_Block GenesisData) =
     (Blockchain H ms, Resolved (hd (chain (Blockchain H ms)))) \<and>
   (chain_inv self \<longrightarrow> chain_inv (perform H V msa msb op self)) \<and>
   (chain self \<noteq> [] \<longrightarrow> chain (perform H V msa msb op self) \<noteq> []) \<and>
   chain_inv (run H V ops (Blockchain H ms)) \<and>
   chain (run H V ops (Blockchain H ms)) \<noteq> []"
proof -
  have i: "chain_inv (Blockchain H ms)"
    by (simp add: Blockchain_eq chain_inv_def height_stamp)
  have n: "chain (Blockchain H ms) \<noteq> []" by (simp add: Blockchain_eq)
  have "chain_inv (run H V ops (Blockchain H ms))"
    by (rule run_preserves[where P = chain_inv]) (simp_all add: chain_inv_perform i)
  moreover have "chain (run H V ops (Blockchain H ms)) \<noteq> []"
    by (rule run_preserves[where P = "\<lambda>s. chain s \<noteq> []"]) (simp_all add: nonempty_perform n)
  ultimately show ?thesis
    using i n initialization_resolves[of H ms]
    by (simp add: chain_inv_perform nonempty_perform)
qed

theorem chain_invariant_witness:
  "chain_inv ledger0 \<and> chain ledger0 \<noteq> [] \<and>
   chain_inv (perform sample_hash accept 1700000100000 1700000100001
      (SubmitStar ''1A2b3C'' ''1A2b3C:1700000000:starRegistry'' ''sig'' ''star1'') ledger0) \<and>
   length (chain (perform sample_hash accept 1700000100000 1700000100001
      (SubmitStar ''1A2b3C'' ''1A2b3C:1700000000:starRegistry'' ''sig'' ''star1'') ledger0)) = 2 \<and>
   chain_height (perform sample_hash accept 1700000100000 1700000100001
      (SubmitStar ''1A2b3C'' ''1A2b3C:1700000000:starRegistry'' ''sig'' ''star1'') ledger0) = 1"
proof -
  have h1: "chain_inv ledger0" by code_simp
  have h2: "chain ledger0 \<noteq> []" by code_simp
  have h3: "length (chain (perform sample_hash accept 1700000100000 1700000100001
      (SubmitStar ''1A2b3C'' ''1A2b3C:1700000000:starRegistry'' ''sig'' ''star1'') ledger0)) = 2"
    by code_simp
  have h4: "chain_height (perform sample_hash accept 1700000100000 1700000100001
      (SubmitStar ''1A2b3C'' ''1A2b3C:1700000000:starRegistry'' ''sig'' ''star1'') ledger0) = 1"
    by code_simp
  from chain_invariant
    [where self = ledger0 and H = sample_hash and V = accept and msa = 1700000100000
       and msb = 1700000100001
       and op = "SubmitStar ''1A2b3C'' ''1A2b3C:1700000000:starRegistry'' ''sig'' ''star1''"]
    h1 h2 h3 h4
  show ?thesis by blast
qed

section \<open>Submitting a star\<close>

text \<open>
  The claim C4 as it is stated, that \<^verbatim>\<open>submitStar\<close> rejects with the timeout exactly
  when the elapsed minutes exceed 5, fails on a message without a timestamp: the elapsed
  time is \<^verbatim>\<open>NaN\<close>, which does not exceed 5, and the promise rejects with the timeout
  all the same, since \<^verbatim>\<open>NaN <= 5.\<close> is false.
\<close>

theorem submitStar_expired_counterexample:
  "snd (submitStar sample_hash accept 1700000100000 1700000100001 ledger0
      ''1A2b3C'' ''1A2b3C'' ''sig'' ''star1'') = Rejected MessageTimeout \<and>
   \<not> elapsed_exceeds_5 (curr_timestamp 1700000100000) (message_time ''1A2b3C'')"
  by code_simp

text \<open>
  Claim C4, amended. \<^verbatim>\<open>submitStar\<close> rejects with the timeout exactly when
  \<^verbatim>\<open>time_diff_min <= 5.\<close> is false: when the elapsed minutes exceed 5, or when they
  are \<^verbatim>\<open>NaN\<close> because the timestamp of the message or the reading of the clock does
  not parse. With both parsed, the elapsed minutes exceed 5 exactly when more than 300
  seconds have passed; a message timestamped 301 seconds before the clock is rejected with
  the timeout and the ledger unchanged, whatever the verifier says.
\<close>

theorem submitStar_expired_iff:
  "(snd (submitStar H V ms ms' self address msg sig st) = Rejected MessageTimeout \<longleftrightarrow>
      curr_timestamp ms = None \<or> message_time msg = None \<or>
      elapsed_exceeds_5 (curr_timestamp ms) (message_time msg)) \<and>
   (curr_timestamp ms = Some now \<and> message_time msg = Some t \<longrightarrow>
      elapsed_exceeds_5 (curr_timestamp ms) (message_time msg) = (now - t > 300)) \<and>
   (curr_timestamp ms = Some now \<and> message_time msg = Some (now - 301) \<longrightarrow>
      submitStar H V ms ms' self address msg sig st = (self, Rejected MessageTimeout))"
proof (intro conjI impI)
  show "snd (submitStar H V ms ms' self address msg sig st) = Rejected MessageTimeout \<longleftrightarrow>
      curr_timestamp ms = None \<or> message_time msg = None \<or>
      elapsed_exceeds_5 (curr_timestamp ms) (message_time msg)"
    by (simp only: submitStar_timeout_iff not_fresh_iff)
next
  assume "curr_timestamp ms = Some now \<and> message_time msg = Some t"
  then show "elapsed_exceeds_5 (curr_timestamp ms) (message_time msg) = (now - t > 300)"
    by (auto simp: elapsed_exceeds_5_def time_diff_min_def)
next
  assume "curr_timestamp ms = Some now \<and> message_time msg = Some (now - 301)"
  then have "\<not> js_le (time_diff_min (curr_timestamp ms) (message_time msg)) 5"
    by (simp add: js_le_def time_diff_min_def)
  then show "submitStar H V ms ms' self address msg sig st = (self, Rejected MessageTimeout)"
    by (simp add: submitStar_def)
qed

theorem submitStar_expired_iff_witness:
  "curr_timestamp 1700000301000 = Some 1700000301 \<and>
   message_time ''1A2b3C:1700000000:starRegistry'' = Some (1700000301 - 301) \<and>
   accept ''1A2b3C:1700000000:starRegistry'' ''1A2b3C'' ''sig'' \<and>
   submitStar sample_hash accept 1700000301000 1700000301001 ledger0
      ''1A2b3C'' ''1A2b3C:1700000000:starRegistry'' ''sig'' ''star1'' =
     (ledger0, Rejected MessageTimeout) \<and>
   elapsed_exceeds_5 (curr_timestamp 1700000301000)
      (message_time ''1A2b3C:1700000000:starRegistry'')"
proof -
  have h1: "curr_timestamp 1700000301000 = Some 1700000301" by code_simp
  have h2: "message_time ''1A2b3C:1700000000:starRegistry'' = Some (1700000301 - 301)"
    by code_simp
  have h3: "accept ''1A2b3C:1700000000:starRegistry'' ''1A2b3C'' ''sig''"
    by (simp add: accept_def)
  from submitStar_expired_iff
    [where ms = 1700000301000 and msg = "''1A2b3C:1700000000:starRegistry''"
       and now = 1700000301 and t = 1700000000 and H = sample_hash and V = accept
       and ms' = 1700000301001 and self = ledger0 and address = "''1A2b3C''"
       and sig = "''sig''" and st = "''star1''"] h1 h2 h3
  show ?thesis by simp
qed

text \<open>
  Claim C5. With a message that passes the freshness test: when the verifier returns
  false, the promise rejects with \<^verbatim>\<open>'message not verified'\<close> and the ledger is
  unchanged; when it returns true, the state and the promise are those of
  \<^verbatim>\<open>_addBlock\<close> on a new block whose body is the claim
  \<^verbatim>\<open>{owner: address, signature, message, star}\<close> (a rejection of \<^verbatim>\<open>_addBlock\<close>
  leaving the promise pending), the block appended decodes to that claim, whose owner is
  the address submitted, and on a ledger that satisfies the invariant a block is appended.
  On a valid ledger the promise resolves with that block.
\<close>

theorem submitStar_fresh_message:
  assumes "js_le (time_diff_min (curr_timestamp ms) (message_time msg)) 5"
  shows "(\<not> V msg address sig \<longrightarrow>
            submitStar H V ms ms' self address msg sig st = (self, Rejected MessageNotVerified)) \<and>
         (V msg address sig \<longrightarrow>
            fst (submitStar H V ms ms' self address msg sig st) =
              fst (addBlock H ms' self (new_Block
                (Claim \<lparr>owner = address, signature = sig, message = msg, star = st\<rparr>))) \<and>
            snd (submitStar H V ms ms' self address msg sig st) =
              (case snd (addBlock H ms' self (new_Block
                 (Claim \<lparr>owner = address, signature = sig, message = msg, star = st\<rparr>))) of
                 Resolved b \<Rightarrow> Resolved b | Rejected e \<Rightarrow> Pending | Pending \<Rightarrow> Pending) \<and>
            (chain (fst (submitStar H V ms ms' self address msg sig st)) = chain self @ [b] \<longrightarrow>
               getBData b = Inr \<lparr>owner = address, signature = sig, message = msg, star = st\<rparr> \<and>
               (\<exists>d. getBData b = Inr d \<and> owner d = address)) \<and>
            (chain_inv self \<longrightarrow>
               (\<exists>b. chain (fst (submitStar H V ms ms' self address msg sig st)) =
                      chain self @ [b])) \<and>
            (ledger_valid H self \<longrightarrow>
               snd (submitStar H V ms ms' self address msg sig st) =
                 Resolved (stamp H ms' self (new_Block
                   (Claim \<lparr>owner = address, signature = sig, message = msg, star = st\<rparr>)))))"
proof (intro conjI impI)
  assume "\<not> V msg address sig"
  with assms show "submitStar H V ms ms' self address msg sig st =
      (self, Rejected MessageNotVerified)"
    by (simp add: submitStar_def)
next
  assume v: "V msg address sig"
  let ?d = "\<lparr>owner = address, signature = sig, message = msg, star = st\<rparr>"
  show f: "fst (submitStar H V ms ms' self address msg sig st) =
      fst (addBlock H ms' self (new_Block (Claim ?d)))"
    using assms v by (simp add: fst_submitStar)
  show "snd (submitStar H V ms ms' self address msg sig st) =
      (case snd (addBlock H ms' self (new_Block (Claim ?d))) of
         Resolved b \<Rightarrow> Resolved b | Rejected e \<Rightarrow> Pending | Pending \<Rightarrow> Pending)"
    using assms v by (simp add: snd_submitStar)
  {
    assume "chain (fst (submitStar H V ms ms' self address msg sig st)) = chain self @ [b]"
    then have "b = stamp H ms' self (new_Block (Claim ?d))"
      unfolding f by (auto simp: fst_addBlock split: if_splits)
    then show g: "getBData b = Inr ?d"
      by (simp add: getBData_stamp) (simp add: getBData_def new_Block_def)
    then show "\<exists>d. getBData b = Inr d \<and> owner d = address" by simp
  }
  {
    assume "chain_inv self"
    then have "chain_height self = int (length (chain self)) - 1" by (simp add: chain_inv_def)
    then show "\<exists>b. chain (fst (submitStar H V ms ms' self address msg sig st)) = chain self @ [b]"
      unfolding f by (simp add: addBlock_pushes)
  }
  {
    assume "ledger_valid H self"
    from submitStar_valid
      [where H = H and self = self and ms = ms and msg = msg and V = V and address = address
         and sig = sig and ms' = ms' and st = st, OF this assms v]
    show "snd (submitStar H V ms ms' self address msg sig st) =
        Resolved (stamp H ms' self (new_Block (Claim ?d)))" by simp
  }
qed

theorem submitStar_fresh_message_witness:
  "js_le (time_diff_min (curr_timestamp 1700000100000)
      (message_time ''1A2b3C:1700000000:starRegistry'')) 5 \<and>
   \<not> refuse ''1A2b3C:1700000000:starRegistry'' ''1A2b3C'' ''sig'' \<and>
   submitStar sample_hash refuse 1700000100000 1700000100001 ledger0
      ''1A2b3C'' ''1A2b3C:1700000000:starRegistry'' ''sig'' ''star1'' =
     (ledger0, Rejected MessageNotVerified) \<and>
   accept ''1A2b3C:1700000000:starRegistry'' ''1A2b3C'' ''sig'' \<and>
   chain_inv ledger0 \<and>
   chain (fst (submitStar sample_hash accept 1700000100000 1700000100001 ledger0
      ''1A2b3C'' ''1A2b3C:1700000000:starRegistry'' ''sig'' ''star1'')) =
     chain ledger0 @ [last (chain ledger1)] \<and>
   getBData (last (chain ledger1)) =
     Inr \<lparr>owner = ''1A2b3C'', signature = ''sig'',
          message = ''1A2b3C:1700000000:starRegistry'', star = ''star1''\<rparr> \<and>
   ledger_valid sample_hash ledger0 \<and>
   snd (submitStar sample_hash accept 1700000100000 1700000100001 ledger0
      ''1A2b3C'' ''1A2b3C:1700000000:starRegistry'' ''sig'' ''star1'') =
     Resolved (stamp sample_hash 1700000100001 ledger0 (new_Block
       (Claim \<lparr>owner = ''1A2b3C'', signature = ''sig'',
                message = ''1A2b3C:1700000000:starRegistry'', star = ''star1''\<rparr>)))"
proof -
  have h1: "js_le (time_diff_min (curr_timestamp 1700000100000)
      (message_time ''1A2b3C:1700000000:starRegistry'')) 5" by code_simp
  have h2: "\<not> refuse ''1A2b3C:1700000000:starRegistry'' ''1A2b3C'' ''sig''"
    by (simp add: refuse_def)
  have h3: "accept ''1A2b3C:1700000000:starRegistry'' ''1A2b3C'' ''sig''"
    by (simp add: accept_def)
  have h4: "chain_inv ledger0" by code_simp
  have h5: "chain (fst (submitStar sample_hash accept 1700000100000 1700000100001 ledger0
      ''1A2b3C'' ''1A2b3C:1700000000:starRegistry'' ''sig'' ''star1'')) =
     chain ledger0 @ [last (chain ledger1)]" by code_simp
  have h6: "ledger_valid sample_hash ledger0" by code_simp
  from submitStar_fresh_message[OF h1, where V = refuse and address = "''1A2b3C''"
      and sig = "''sig''" and H = sample_hash and ms' = 1700000100001 and self = ledger0
      and st = "''star1''"]
    submitStar_fresh_message[OF h1, where V = accept and address = "''1A2b3C''"
      and sig = "''sig''" and H = sample_hash and ms' = 1700000100001 and self = ledger0
      and st = "''star1''" and b = "last (chain ledger1)"]
    h1 h2 h3 h4 h5 h6
  show ?thesis by blast
qed

text \<open>
  Claim C8. A message without a colon has no second field, so its timestamp is
  \<^verbatim>\<open>NaN\<close>; and whenever the timestamp of the message is \<^verbatim>\<open>NaN\<close>,
  \<^verbatim>\<open>submitStar\<close> rejects with the timeout, the error of an expired message, and leaves
  the ledger unchanged.
\<close>

theorem submitStar_malformed_message:
  "(CHR '':'' \<notin> set msg \<longrightarrow> message_time msg = None) \<and>
   (message_time msg = None \<longrightarrow>
      submitStar H V ms ms' self address msg sig st = (self, Rejected MessageTimeout))"
proof (intro conjI impI)
  assume "CHR '':'' \<notin> set msg"
  then show "message_time msg = None" by (rule message_time_no_colon)
next
  assume "message_time msg = None"
  then have "\<not> js_le (time_diff_min (curr_timestamp ms) (message_time msg)) 5"
    by (simp add: not_fresh_iff)
  then show "submitStar H V ms ms' self address msg sig st = (self, Rejected MessageTimeout)"
    by (simp add: submitStar_def)
qed

theorem submitStar_malformed_message_witness:
  "CHR '':'' \<notin> set ''1A2b3C'' \<and> message_time ''1A2b3C'' = None \<and>
   submitStar sample_hash accept 1700000100000 1700000100001 ledger0
      ''1A2b3C'' ''1A2b3C'' ''sig'' ''star1'' = (ledger0, Rejected MessageTimeout) \<and>
   message_time ''1A2b3C::starRegistry'' = None \<and>
   submitStar sample_hash accept 1700000100000 1700000100001 ledger0
      ''1A2b3C'' ''1A2b3C::starRegistry'' ''sig'' ''star1'' = (ledger0, Rejected MessageTimeout)"
proof -
  have h1: "CHR '':'' \<notin> set ''1A2b3C''" by simp
  have h2: "message_time ''1A2b3C::starRegistry'' = None" by code_simp
  from submitStar_malformed_message
    [where msg = "''1A2b3C''" and H = sample_hash and V = accept and ms = 1700000100000
       and ms' = 1700000100001 and self = ledger0 and address = "''1A2b3C''"
       and sig = "''sig''" and st = "''star1''"]
   submitStar_malformed_message
    [where msg = "''1A2b3C::starRegistry''" and H = sample_hash and V = accept
       and ms = 1700000100000
       and ms' = 1700000100001 and self = ledger0 and address = "''1A2b3C''"
       and sig = "''sig''" and st = "''star1''"]
   h1 h2
  show ?thesis by blast
qed

text \<open>
  Claim C10. When the clock reads \<open>now\<close> seconds and the message carries a timestamp
  \<open>t\<close> with \<open>now \<le> t\<close>, the freshness test passes and the promise of
  \<^verbatim>\<open>submitStar\<close> does not reject with the timeout.
\<close>

theorem submitStar_future_message_is_fresh:
  assumes "curr_timestamp ms = Some now" and "message_time msg = Some t" and "now \<le> t"
  shows "js_le (time_diff_min (curr_timestamp ms) (message_time msg)) 5 \<and>
         snd (submitStar H V ms ms' self address msg sig st) \<noteq> Rejected MessageTimeout"
proof -
  have "real_of_int (now - t) / 60 \<le> 5" using assms(3) by simp
  then have "js_le (time_diff_min (curr_timestamp ms) (message_time msg)) 5"
    using assms(1,2) by (simp add: js_le_def time_diff_min_def)
  then show ?thesis by (simp add: submitStar_timeout_iff)
qed

theorem submitStar_future_message_is_fresh_witness:
  "curr_timestamp 1700000100000 = Some 1700000100 \<and>
   message_time ''1A2b3C:1700009999:starRegistry'' = Some 1700009999 \<and>
   (1700000100 :: int) \<le> 1700009999 \<and>
   snd (submitStar sample_hash accept 1700000100000 1700000100001 ledger0
      ''1A2b3C'' ''1A2b3C:1700009999:starRegistry'' ''sig'' ''star1'') \<noteq> Rejected MessageTimeout"
proof -
  have h1: "curr_timestamp 1700000100000 = Some 1700000100" by code_simp
  have h2: "message_time ''1A2b3C:1700009999:starRegistry'' = Some 1700009999" by code_simp
  have h3: "(1700000100 :: int) \<le> 1700009999" by simp
  from submitStar_future_message_is_fresh[OF h1 h2 h3, of sample_hash accept 1700000100001
     ledger0 "''1A2b3C''" "''sig''" "''star1''"] h1 h2 h3
  show ?thesis by simp
qed

section \<open>The stars of an owner\<close>

text \<open>
  Claim C7. \<^verbatim>\<open>getStarsByWalletAddress\<close> always resolves, with the bodies that decode
  and whose owner is the address, in the order of the chain; the decode failures go to a
  second array that is not returned, and every block is either decoded or counted there.
  After every run of operations on a new ledger the heights along the chain are strictly
  ascending, so the order of the scan is that of the heights. On a new ledger the one
  failure is the genesis block and the result is empty.
\<close>

theorem getStarsByWalletAddress_result:
  "getStarsByWalletAddress (self :: 's blockchain) address =
     Resolved (stars_of_owner address (chain self)) \<and>
   scan_stars address (chain self) ([], []) =
     (stars_of_owner address (chain self), decode_failures (chain self)) \<and>
   length (decoded_bodies (chain self)) + length (decode_failures (chain self)) =
     length (chain self) \<and>
   sorted_wrt (<) (map height (chain (run H V ops (Blockchain H ms :: 's blockchain)))) \<and>
   decode_failures (chain (Blockchain H ms)) = [DecodeFailure] \<and>
   getStarsByWalletAddress (Blockchain H ms) address = Resolved []"
proof -
  have s: "scan_stars address (chain self) ([], []) =
     (stars_of_owner address (chain self), decode_failures (chain self))" for self :: "'s blockchain"
    by (simp add: scan_stars_eq)
  have l: "length (decoded_bodies blocks) + length (decode_failures blocks) = length blocks"
    for blocks :: "'s block list"
    by (induction blocks) (simp_all add: decoded_bodies_def decode_failures_def split: sum.splits)
  have "heights_indexed (Blockchain H ms)"
    by (simp add: Blockchain_eq heights_indexed_def height_stamp)
  then have "heights_indexed (run H V ops (Blockchain H ms))"
    by (rule run_preserves[where P = heights_indexed, rotated]) (rule heights_indexed_perform)
  then have o: "sorted_wrt (<) (map height (chain (run H V ops (Blockchain H ms))))"
    by (rule heights_indexed_sorted)
  have g: "getBData (stamp H ms \<lparr>chain = [], chain_height = - 1\<rparr> (new_Block GenesisData)) =
      Inl DecodeFailure"
    by (simp add: getBData_stamp) (simp add: getBData_def new_Block_def)
  have d: "decode_failures (chain (Blockchain H ms)) = [DecodeFailure]"
    by (simp add: Blockchain_eq decode_failures_def g)
  have e: "stars_of_owner address (chain (Blockchain H ms)) = []"
    by (simp add: Blockchain_eq stars_of_owner_def decoded_bodies_def g)
  show ?thesis
    using s l o d e by (simp add: getStarsByWalletAddress_def)
qed

theorem getStarsByWalletAddress_result_witness:
  "getStarsByWalletAddress ledger1 ''1A2b3C'' =
     Resolved [\<lparr>owner = ''1A2b3C'', signature = ''sig'',
                 message = ''1A2b3C:1700000000:starRegistry'', star = ''star1''\<rparr>] \<and>
   getStarsByWalletAddress ledger1 ''other'' = Resolved [] \<and>
   decode_failures (chain ledger1) = [DecodeFailure]"
proof -
  have h1: "stars_of_owner ''1A2b3C'' (chain ledger1) =
     [\<lparr>owner = ''1A2b3C'', signature = ''sig'',
        message = ''1A2b3C:1700000000:starRegistry'', star = ''star1''\<rparr>]" by code_simp
  have h2: "stars_of_owner ''other'' (chain ledger1) = []" by code_simp
  have h3: "decode_failures (chain ledger1) = [DecodeFailure]" by code_simp
  from getStarsByWalletAddress_result[where self = ledger1 and address = "''1A2b3C''"
      and H = sample_hash and V = accept and ops = "[]" and ms = 1700000000123]
    getStarsByWalletAddress_result[where self = ledger1 and address = "''other''"
      and H = sample_hash and V = accept and ops = "[]" and ms = 1700000000123]
    h1 h2 h3
  show ?thesis by simp
qed

end
